theory Spec2Isabelle
  imports Main "HOL-Library.Word" "HOL-Library.DAList"
begin

section \<open>Package status: the status codes and the Status value\<close>

text \<open>
  Modelled from the spec: the type \<open>codes.Code\<close> and its members are declared in package
  \<open>codes\<close>, which the sources at hand only import. Section 3 of the specification treats a
  status code as an opaque, totally ordered integer id, with 0 = OK and the members
  numbered upward in the order in which they are listed; a number outside the declared
  members is still a code (it is only displayed differently).
\<close>

type_synonym Code = int

definition OK :: Code where "OK = 0"
definition Canceled :: Code where "Canceled = 1"
definition Unknown :: Code where "Unknown = 2"
definition InvalidArgument :: Code where "InvalidArgument = 3"
definition DeadlineExceeded :: Code where "DeadlineExceeded = 4"
definition NotFound :: Code where "NotFound = 5"

text \<open>
  Modelled from the spec: \<open>type Status = status.Status\<close> aliases a type of
  \<open>internal/status\<close>, which the sources at hand only import. By section 3 a Status is a
  code, a message and an ordered sequence of opaque detail records; by section 6 each
  detail is a byte blob tagged with a type identifier.
\<close>

record detail =
  type_identifier :: string
  blob :: "8 word list"

record Status =
  code :: Code
  message :: string
  details :: "detail list"

text \<open>
  A \<open>*Status\<close> of the Go source is a \<^typ>\<open>Status option\<close>: \<open>None\<close> is the nil pointer.

  Modelled from the spec: \<open>status.New\<close> (in \<open>internal/status\<close>) builds a Status with
  empty details (section 4.1); its result is never nil.
\<close>

definition status_New :: "Code \<Rightarrow> string \<Rightarrow> Status" where
  "status_New c msg = \<lparr>code = c, message = msg, details = []\<rparr>"

text \<open>
  A panic of the Go runtime or of a method, with the value it carries as text. A function
  that may panic returns \<open>Inl\<close> of the panic or \<open>Inr\<close> of its result.
\<close>

datatype go_panic = GoPanic string

text \<open>
  Modelled from the spec: the accessor \<open>(*Status).Code\<close> (in \<open>internal/status\<close>) reads the
  code of a Status (section 3). What it does on the nil pointer is decided by code that
  is not at hand, and the specification does not say: it is the parameter \<open>on_nil\<close>, a
  code or a panic.
\<close>

fun Status_Code :: "go_panic + Code \<Rightarrow> Status option \<Rightarrow> go_panic + Code" where
  "Status_Code on_nil None = on_nil"
| "Status_Code on_nil (Some s) = Inr (code s)"

subsection \<open>Native errors\<close>

text \<open>
  A non-nil value of Go's interface type \<open>error\<close>. The two sentinels of package
  \<open>context\<close> are values of their own, told apart from every other error by \<open>==\<close>. Any
  other error has a concrete (dynamic) type, the text its method \<open>Error()\<close> returns, and
  may or may not have the method \<open>GRPCStatus() *Status\<close>: \<open>None\<close> when its type lacks
  the method, \<open>Some (Inr p)\<close> when it has it and the call returns the pointer \<open>p\<close>,
  \<open>Some (Inl e)\<close> when it has it and the call panics with \<open>e\<close> (the method is the
  caller's code: on a typed nil pointer, say, it may dereference its receiver).
  A nil \<open>error\<close> is \<open>None\<close> of \<^typ>\<open>'a option\<close>.
\<close>

datatype error =
    context_DeadlineExceeded
  | context_Canceled
  | ErrorValue string string "(go_panic + Status option) option"

fun err_Error :: "error \<Rightarrow> string" where
  "err_Error context_DeadlineExceeded = ''context deadline exceeded''"
| "err_Error context_Canceled = ''context canceled''"
| "err_Error (ErrorValue dyn_type text cap) = text"

fun GRPCStatus :: "error \<Rightarrow> (go_panic + Status option) option" where
  "GRPCStatus context_DeadlineExceeded = None"
| "GRPCStatus context_Canceled = None"
| "GRPCStatus (ErrorValue dyn_type text cap) = cap"

text \<open>
  Modelled from the spec: \<open>(*Status).Err\<close> (in \<open>internal/status\<close>) returns the
  absence-of-error value when the code is OK, and otherwise a present error that carries
  the Status recoverably, that is through \<open>GRPCStatus()\<close> (section 4.2). The layout of the
  error's text is not fixed by the specification; it is the parameter \<open>render\<close>.
\<close>

definition Err :: "(Status \<Rightarrow> string) \<Rightarrow> Status \<Rightarrow> error option" where
  "Err render s =
     (if code s = OK then None
      else Some (ErrorValue ''*status.Error'' (render s) (Some (Inr (Some s)))))"

subsection \<open>The functions of package status\<close>

definition New :: "Code \<Rightarrow> string \<Rightarrow> Status" where
  "New c msg = status_New c msg"

text \<open>
  \<open>fmt.Sprintf\<close> belongs to Go's standard library; \<open>Newf\<close> and \<open>Errorf\<close> take it as
  the parameter \<open>sprintf\<close>.
\<close>

definition Newf :: "(string \<Rightarrow> 'a list \<Rightarrow> string) \<Rightarrow> Code \<Rightarrow> string \<Rightarrow> 'a list \<Rightarrow> Status" where
  "Newf sprintf c format a = New c (sprintf format a)"

definition Error :: "(Status \<Rightarrow> string) \<Rightarrow> Code \<Rightarrow> string \<Rightarrow> error option" where
  "Error render c msg = Err render (New c msg)"

definition Errorf ::
  "(Status \<Rightarrow> string) \<Rightarrow> (string \<Rightarrow> 'a list \<Rightarrow> string) \<Rightarrow> Code \<Rightarrow> string \<Rightarrow> 'a list \<Rightarrow> error option"
where
  "Errorf render sprintf c format a = Error render c (sprintf format a)"

text \<open>
  \<open>FromError\<close>, \<open>Convert\<close> and \<open>Code\<close> call \<open>se.GRPCStatus()\<close> and have no
  \<open>recover\<close>: a panic of that call is the outcome of the function.
\<close>

fun FromError :: "error option \<Rightarrow> go_panic + Status option \<times> bool" where
  "FromError None = Inr (None, True)"
| "FromError (Some err) =
     (case GRPCStatus err of
        Some (Inl e) \<Rightarrow> Inl e
      | Some (Inr se) \<Rightarrow> Inr (se, True)
      | None \<Rightarrow> Inr (Some (New Unknown (err_Error err)), False))"

definition Convert :: "error option \<Rightarrow> go_panic + Status option" where
  "Convert err = (case FromError err of Inl e \<Rightarrow> Inl e | Inr (s, ok) \<Rightarrow> Inr s)"

fun Code :: "go_panic + Code \<Rightarrow> error option \<Rightarrow> go_panic + Code" where
  "Code on_nil None = Inr OK"
| "Code on_nil (Some err) =
     (case GRPCStatus err of
        Some (Inl e) \<Rightarrow> Inl e
      | Some (Inr se) \<Rightarrow> Status_Code on_nil se
      | None \<Rightarrow> Inr Unknown)"

fun FromContextError :: "error option \<Rightarrow> Status option" where
  "FromContextError None = None"
| "FromContextError (Some err) =
     (if err = context_DeadlineExceeded then Some (New DeadlineExceeded (err_Error err))
      else if err = context_Canceled then Some (New Canceled (err_Error err))
      else Some (New Unknown (err_Error err)))"

subsection \<open>The wire projection\<close>

text \<open>
  Modelled from the spec: the wire record, the forward projection \<open>ToWireMessage\<close> and
  \<open>status.FromProto\<close> live in \<open>genproto\<close> and \<open>internal/status\<close>, which the sources at
  hand only import. By section 6 a Status maps to a record of three fields: the code as
  the integer value of the status code, the message, and the details in order, each an
  inert blob. By section 4.1 the reconstruction reads the same three fields back.
\<close>

record wireStatus =
  wire_code :: int
  wire_message :: string
  wire_details :: "detail list"

definition ToWireMessage :: "Status \<Rightarrow> wireStatus" where
  "ToWireMessage s =
     \<lparr>wire_code = code s, wire_message = message s, wire_details = details s\<rparr>"

definition status_FromProto :: "wireStatus \<Rightarrow> Status" where
  "status_FromProto w =
     \<lparr>code = wire_code w, message = wire_message w, details = wire_details w\<rparr>"

definition FromProto :: "wireStatus \<Rightarrow> Status" where
  "FromProto s = status_FromProto s"

definition ErrorProto :: "(Status \<Rightarrow> string) \<Rightarrow> wireStatus \<Rightarrow> error option" where
  "ErrorProto render s = Err render (FromProto s)"

subsection \<open>A fragment of fmt.Sprintf\<close>

text \<open>
  Go's \<open>fmt.Sprintf\<close>, for formats made of plain text, \<open>%%\<close> and the verbs \<open>%s\<close>,
  \<open>%d\<close> and \<open>%v\<close>, over operands that are strings or ints. A verb the operand does not
  support prints \<open>%!verb(type=value)\<close>, a verb without operand \<open>%!verb(MISSING)\<close>, a
  lone \<open>%\<close> at the end \<open>%!(NOVERB)\<close>, and surplus operands \<open>%!(EXTRA type=value, ...)\<close>.
  Flags, width, precision, argument indexes and the other verbs of \<open>fmt\<close> are outside the
  fragment; no statement below formats with them.
\<close>

datatype operand = StringArg string | IntArg int

definition digit_char :: "nat \<Rightarrow> char" where
  "digit_char d = ''0123456789'' ! d"

fun show_nat :: "nat \<Rightarrow> string" where
  "show_nat n = (if n < 10 then [digit_char n] else show_nat (n div 10) @ [digit_char (n mod 10)])"

declare show_nat.simps [simp del]

definition show_int :: "int \<Rightarrow> string" where
  "show_int i = (if i < 0 then CHR ''-'' # show_nat (nat (- i)) else show_nat (nat i))"

fun type_name :: "operand \<Rightarrow> string" where
  "type_name (StringArg s) = ''string''"
| "type_name (IntArg i) = ''int''"

fun plain :: "operand \<Rightarrow> string" where
  "plain (StringArg s) = s"
| "plain (IntArg i) = show_int i"

definition badVerb :: "char \<Rightarrow> operand \<Rightarrow> string" where
  "badVerb verb x = ''%!'' @ [verb] @ ''('' @ type_name x @ ''='' @ plain x @ '')''"

fun printArg :: "operand \<Rightarrow> char \<Rightarrow> string" where
  "printArg (StringArg s) verb =
     (if verb = CHR ''s'' \<or> verb = CHR ''v'' then s else badVerb verb (StringArg s))"
| "printArg (IntArg i) verb =
     (if verb = CHR ''d'' \<or> verb = CHR ''v'' then show_int i else badVerb verb (IntArg i))"

fun extra_list :: "operand list \<Rightarrow> string" where
  "extra_list [] = []"
| "extra_list [x] = type_name x @ ''='' @ plain x"
| "extra_list (x # y # ys) = type_name x @ ''='' @ plain x @ '', '' @ extra_list (y # ys)"

fun extra :: "operand list \<Rightarrow> string" where
  "extra [] = []"
| "extra (x # xs) = ''%!(EXTRA '' @ extra_list (x # xs) @ '')''"

fun Sprintf :: "string \<Rightarrow> operand list \<Rightarrow> string" where
  "Sprintf [] a = extra a"
| "Sprintf [c] a = (if c = CHR ''%'' then ''%!(NOVERB)'' @ extra a else c # extra a)"
| "Sprintf (c # verb # format) a =
     (if c \<noteq> CHR ''%'' then c # Sprintf (verb # format) a
      else if verb = CHR ''%'' then CHR ''%'' # Sprintf format a
      else (case a of
              [] \<Rightarrow> ''%!'' @ [verb] @ ''(MISSING)'' @ Sprintf format []
            | x # xs \<Rightarrow> printArg x verb @ Sprintf format xs))"

section \<open>Package attributes: the key/value store\<close>

text \<open>
  The arguments \<open>kvs ...interface{}\<close> are arbitrary Go values. The model has the nil
  interface, ints, strings, booleans and slices; floating-point values are left out. A
  Go map keyed by \<open>interface{}\<close> hashes the dynamic value of each key: a slice cannot be
  hashed, and using one as a key panics at run time (the package's comment asks for
  hashable keys). \<open>as_key\<close> gives the key a value stands for, if it has one; two values
  are the same key exactly when they are equal.
\<close>

datatype val = VNil | VInt int | VStr string | VBool bool | VSlice "val list"

datatype key = KNil | KInt int | KStr string | KBool bool

fun as_key :: "val \<Rightarrow> key option" where
  "as_key VNil = Some KNil"
| "as_key (VInt i) = Some (KInt i)"
| "as_key (VStr s) = Some (KStr s)"
| "as_key (VBool b) = Some (KBool b)"
| "as_key (VSlice xs) = None"

text \<open>
  The panics of the package: the explicit one of \<open>New\<close> and \<open>WithValues\<close> (its message
  reports \<open>len(kvs)\<close>), and the two of the Go runtime, for an unhashable map key and for
  the field access \<open>a.m\<close> through a nil \<open>a\<close>.
\<close>

datatype panic = UnexpectedInput nat | UnhashableKey val | NilDereference

text \<open>
  \<open>Attributes\<close> is a struct holding a map; a Go map has each key once, in no particular
  order. Values of type \<open>*Attributes\<close> are addresses in a store: \<open>None\<close> is nil,
  \<open>Some i\<close> the \<open>i\<close>-th allocated struct. Allocation appends to the store, so the address
  \<open>length h\<close> is the fresh one.
\<close>

record Attributes =
  m :: "(key, val) alist"

type_synonym heap = "Attributes list"

text \<open>
  Reading \<open>a.m\<close>. Go has no dangling pointers; the model faults on an address outside
  the store as it does on nil.
\<close>

fun deref :: "heap \<Rightarrow> nat option \<Rightarrow> panic + Attributes" where
  "deref h None = Inl NilDereference"
| "deref h (Some i) = (if i < length h then Inr (h ! i) else Inl NilDereference)"

text \<open>The write \<open>n.m[k] = v\<close> into the map of the struct at address \<open>n\<close>.\<close>

definition store :: "heap \<Rightarrow> nat \<Rightarrow> key \<Rightarrow> val \<Rightarrow> heap" where
  "store h n k v = h[n := (h ! n)\<lparr>m := DAList.update k v (m (h ! n))\<rparr>]"

definition map_assign :: "heap \<Rightarrow> nat \<Rightarrow> val \<Rightarrow> val \<Rightarrow> (panic + unit) \<times> heap" where
  "map_assign h n k v =
     (case as_key k of
        None \<Rightarrow> (Inl (UnhashableKey k), h)
      | Some k' \<Rightarrow> (Inr (), store h n k' v))"

text \<open>
  The loop \<open>for i := 0; i < len(kvs)/2; i++ { n.m[kvs[i*2]] = kvs[i*2+1] }\<close>, from
  index \<open>i\<close> on. Both indexes are in range whenever \<open>i < len(kvs)/2\<close>.
\<close>

function for_kvs :: "val list \<Rightarrow> nat \<Rightarrow> nat \<Rightarrow> heap \<Rightarrow> (panic + unit) \<times> heap" where
  "for_kvs kvs i n h =
     (if i < length kvs div 2 then
        (case map_assign h n (kvs ! (i * 2)) (kvs ! (i * 2 + 1)) of
           (Inl p, h') \<Rightarrow> (Inl p, h')
         | (Inr u, h') \<Rightarrow> for_kvs kvs (i + 1) n h')
      else (Inr (), h))"
  by pat_completeness auto
termination
  by (relation "measure (\<lambda>(kvs, i, n, h). length kvs div 2 - i)") auto

declare for_kvs.simps [simp del]

text \<open>
  The loop \<open>for k, v := range a.m { n.m[k] = v }\<close> over the entries of the receiver's
  map, in whatever order the map yields them. The keys of a map are hashable, so these
  writes cannot panic.
\<close>

fun for_range :: "(key \<times> val) list \<Rightarrow> nat \<Rightarrow> heap \<Rightarrow> heap" where
  "for_range [] n h = h"
| "for_range ((k, v) # es) n h = for_range es n (store h n k v)"

definition attributes_New :: "heap \<Rightarrow> val list \<Rightarrow> (panic + nat option) \<times> heap" where
  "attributes_New h kvs =
     (if length kvs mod 2 \<noteq> 0 then (Inl (UnexpectedInput (length kvs)), h)
      else
        let a = length h;
            h1 = h @ [\<lparr>m = DAList.empty\<rparr>]
        in (case for_kvs kvs 0 a h1 of
              (Inl p, h2) \<Rightarrow> (Inl p, h2)
            | (Inr u, h2) \<Rightarrow> (Inr (Some a), h2)))"

definition WithValues :: "heap \<Rightarrow> nat option \<Rightarrow> val list \<Rightarrow> (panic + nat option) \<times> heap" where
  "WithValues h a kvs =
     (if length kvs mod 2 \<noteq> 0 then (Inl (UnexpectedInput (length kvs)), h)
      else
        (case deref h a of
           Inl p \<Rightarrow> (Inl p, h)
         | Inr s \<Rightarrow>
             let n = length h;
                 h1 = h @ [\<lparr>m = DAList.empty\<rparr>];
                 h2 = for_range (DAList.impl_of (m s)) n h1
             in (case for_kvs kvs 0 n h2 of
                   (Inl p, h3) \<Rightarrow> (Inl p, h3)
                 | (Inr u, h3) \<Rightarrow> (Inr (Some n), h3))))"

text \<open>\<open>a.m[key]\<close>: a key the map lacks reads as the nil interface.\<close>

definition Value :: "heap \<Rightarrow> nat option \<Rightarrow> val \<Rightarrow> panic + val" where
  "Value h a k =
     (case deref h a of
        Inl p \<Rightarrow> Inl p
      | Inr s \<Rightarrow>
          (case as_key k of
             None \<Rightarrow> Inl (UnhashableKey k)
           | Some k' \<Rightarrow> Inr (case DAList.lookup (m s) k' of None \<Rightarrow> VNil | Some v \<Rightarrow> v)))"

section \<open>Extraction of a Status from a native error\<close>

text \<open>
  C3. Capability extraction is type-agnostic: for every non-nil error that offers the
  retrieval operation \<open>GRPCStatus()\<close>, whatever its concrete type, \<open>FromError\<close> returns
  exactly the \<open>*Status\<close> the operation yields (\<open>se\<close>, what the call returns), paired
  with \<open>True\<close>.
\<close>

theorem FromError_capability:
  "GRPCStatus err = Some (Inr se) \<Longrightarrow> FromError (Some err) = Inr (se, True)"
  by simp

theorem FromError_capability_witness:
  "GRPCStatus (ErrorValue ''thirdparty.quotaError'' ''quota'' (Some (Inr (Some (New NotFound ''nf'')))))
     = Some (Inr (Some (New NotFound ''nf'')))
   \<and> FromError (Some (ErrorValue ''thirdparty.quotaError'' ''quota'' (Some (Inr (Some (New NotFound ''nf''))))))
     = Inr (Some (New NotFound ''nf''), True)"
  using FromError_capability
    [of "ErrorValue ''thirdparty.quotaError'' ''quota'' (Some (Inr (Some (New NotFound ''nf''))))"
        "Some (New NotFound ''nf'')"]
  by simp

text \<open>
  C4. Unknown fallback: for every non-nil error that does not offer \<open>GRPCStatus()\<close>,
  \<open>FromError\<close> returns the Status with code Unknown, the error's text as message and no
  details, paired with \<open>False\<close>; so it does for an error of text "boom".
\<close>

theorem FromError_unknown_fallback:
  "(\<forall>err. GRPCStatus err = None \<longrightarrow>
      FromError (Some err)
        = Inr (Some \<lparr>code = Unknown, message = err_Error err, details = []\<rparr>, False))
   \<and> FromError (Some (ErrorValue ''*errors.errorString'' ''boom'' None))
        = Inr (Some \<lparr>code = Unknown, message = ''boom'', details = []\<rparr>, False)"
  by (simp add: New_def status_New_def)

theorem FromError_unknown_fallback_witness:
  "GRPCStatus context_Canceled = None
   \<and> FromError (Some context_Canceled)
        = Inr (Some \<lparr>code = 2, message = ''context canceled'', details = []\<rparr>, False)"
proof -
  have "GRPCStatus context_Canceled = None \<longrightarrow>
        FromError (Some context_Canceled)
          = Inr (Some \<lparr>code = Unknown, message = err_Error context_Canceled, details = []\<rparr>, False)"
    using FromError_unknown_fallback by blast
  then show ?thesis
    by (simp add: Unknown_def)
qed

text \<open>
  C6, as the code has it. \<open>Code\<close> returns OK for the nil error, the code of the embedded
  Status when the error offers \<open>GRPCStatus()\<close> and the call returns a Status, and Unknown
  for every error that does not offer the operation. It has no failing branch of its own
  and does not recover: it panics when the call of \<open>GRPCStatus()\<close> panics, and when the
  call returns the nil pointer it answers as the accessor \<open>(*Status).Code\<close> does on nil.
\<close>

theorem Code_cases:
  "Code on_nil None = Inr OK
   \<and> (\<forall>err s. GRPCStatus err = Some (Inr (Some s)) \<longrightarrow> Code on_nil (Some err) = Inr (code s))
   \<and> (\<forall>err. GRPCStatus err = None \<longrightarrow> Code on_nil (Some err) = Inr Unknown)
   \<and> (\<forall>err e. GRPCStatus err = Some (Inl e) \<longrightarrow> Code on_nil (Some err) = Inl e)
   \<and> (\<forall>err. GRPCStatus err = Some (Inr None) \<longrightarrow> Code on_nil (Some err) = on_nil)"
  by simp

theorem Code_cases_witness:
  "Code (Inr OK) None = Inr 0
   \<and> Code (Inr OK)
        (Some (ErrorValue ''thirdparty.quotaError'' ''quota'' (Some (Inr (Some (New NotFound ''nf''))))))
       = Inr 5
   \<and> Code (Inr OK) (Some (ErrorValue ''*errors.errorString'' ''boom'' None)) = Inr 2
   \<and> Code (Inr OK)
        (Some (ErrorValue ''*thirdparty.quotaError'' ''quota''
                 (Some (Inl (GoPanic ''invalid memory address or nil pointer dereference'')))))
       = Inl (GoPanic ''invalid memory address or nil pointer dereference'')
   \<and> Code (Inr OK) (Some (ErrorValue ''thirdparty.quotaError'' ''quota'' (Some (Inr None)))) = Inr 0"
proof -
  let ?e = "ErrorValue ''thirdparty.quotaError'' ''quota'' (Some (Inr (Some (New NotFound ''nf''))))"
  let ?b = "ErrorValue ''*errors.errorString'' ''boom'' None"
  let ?p = "ErrorValue ''*thirdparty.quotaError'' ''quota''
              (Some (Inl (GoPanic ''invalid memory address or nil pointer dereference'')))"
  let ?n = "ErrorValue ''thirdparty.quotaError'' ''quota'' (Some (Inr None))"
  have 1: "Code (Inr OK) None = Inr OK"
    and 2: "GRPCStatus ?e = Some (Inr (Some (New NotFound ''nf''))) \<longrightarrow>
            Code (Inr OK) (Some ?e) = Inr (code (New NotFound ''nf''))"
    and 3: "GRPCStatus ?b = None \<longrightarrow> Code (Inr OK) (Some ?b) = Inr Unknown"
    and 4: "GRPCStatus ?p = Some (Inl (GoPanic ''invalid memory address or nil pointer dereference''))
            \<longrightarrow> Code (Inr OK) (Some ?p)
                  = Inl (GoPanic ''invalid memory address or nil pointer dereference'')"
    and 5: "GRPCStatus ?n = Some (Inr None) \<longrightarrow> Code (Inr OK) (Some ?n) = Inr OK"
    using Code_cases [of "Inr OK"] by blast+
  from 1 have a: "Code (Inr OK) None = Inr 0" by (simp add: OK_def)
  from 2 have b: "Code (Inr OK) (Some ?e) = Inr 5"
    by (simp add: New_def status_New_def NotFound_def)
  from 3 have c: "Code (Inr OK) (Some ?b) = Inr 2" by (simp add: Unknown_def)
  from 4 have d: "Code (Inr OK) (Some ?p)
       = Inl (GoPanic ''invalid memory address or nil pointer dereference'')"
    by simp
  from 5 have e: "Code (Inr OK) (Some ?n) = Inr 0" by (simp add: OK_def)
  from a b c d e show ?thesis by blast
qed

text \<open>
  C6, as the claim states it, fails: \<open>Code\<close> is not free of panics for every input. For
  an error whose \<open>GRPCStatus()\<close> panics (here a typed nil pointer whose method
  dereferences its receiver) the call in \<open>Code\<close> panics, even with an accessor that reads
  the nil Status as OK.
\<close>

theorem Code_panics_counterexample:
  "Code (Inr OK)
     (Some (ErrorValue ''*thirdparty.quotaError'' ''quota''
              (Some (Inl (GoPanic ''invalid memory address or nil pointer dereference'')))))
     = Inl (GoPanic ''invalid memory address or nil pointer dereference'')"
  by simp

section \<open>Cancellation signals\<close>

text \<open>
  C5. Cancellation mapping: \<open>FromContextError\<close> maps the nil signal to the nil Status,
  the deadline-exceeded signal to a Status of code DeadlineExceeded, the explicitly
  cancelled signal to a Status of code Canceled, and every other non-nil signal to a
  Status of code Unknown; in each case the message is the signal's text and there are no
  details.
\<close>

theorem FromContextError_mapping:
  "FromContextError None = None
   \<and> FromContextError (Some context_DeadlineExceeded)
       = Some \<lparr>code = DeadlineExceeded, message = err_Error context_DeadlineExceeded, details = []\<rparr>
   \<and> FromContextError (Some context_Canceled)
       = Some \<lparr>code = Canceled, message = err_Error context_Canceled, details = []\<rparr>
   \<and> (\<forall>err. err \<noteq> context_DeadlineExceeded \<and> err \<noteq> context_Canceled \<longrightarrow>
        FromContextError (Some err)
          = Some \<lparr>code = Unknown, message = err_Error err, details = []\<rparr>)"
  by (simp add: New_def status_New_def)

theorem FromContextError_mapping_witness:
  "ErrorValue ''*errors.errorString'' ''context canceled'' None \<noteq> context_DeadlineExceeded
   \<and> ErrorValue ''*errors.errorString'' ''context canceled'' None \<noteq> context_Canceled
   \<and> FromContextError (Some (ErrorValue ''*errors.errorString'' ''context canceled'' None))
       = Some \<lparr>code = 2, message = ''context canceled'', details = []\<rparr>
   \<and> FromContextError (Some context_Canceled)
       = Some \<lparr>code = 1, message = ''context canceled'', details = []\<rparr>
   \<and> FromContextError (Some context_DeadlineExceeded)
       = Some \<lparr>code = 4, message = ''context deadline exceeded'', details = []\<rparr>"
proof -
  let ?e = "ErrorValue ''*errors.errorString'' ''context canceled'' None"
  have 1: "?e \<noteq> context_DeadlineExceeded \<and> ?e \<noteq> context_Canceled \<longrightarrow>
           FromContextError (Some ?e)
             = Some \<lparr>code = Unknown, message = err_Error ?e, details = []\<rparr>"
    and 2: "FromContextError (Some context_Canceled)
             = Some \<lparr>code = Canceled, message = err_Error context_Canceled, details = []\<rparr>"
    and 3: "FromContextError (Some context_DeadlineExceeded)
             = Some \<lparr>code = DeadlineExceeded, message = err_Error context_DeadlineExceeded, details = []\<rparr>"
    using FromContextError_mapping by blast+
  from 1 have a: "FromContextError (Some ?e)
       = Some \<lparr>code = 2, message = ''context canceled'', details = []\<rparr>"
    by (simp add: Unknown_def)
  from 2 have b: "FromContextError (Some context_Canceled)
       = Some \<lparr>code = 1, message = ''context canceled'', details = []\<rparr>"
    by (simp add: Canceled_def)
  from 3 have c: "FromContextError (Some context_DeadlineExceeded)
       = Some \<lparr>code = 4, message = ''context deadline exceeded'', details = []\<rparr>"
    by (simp add: DeadlineExceeded_def)
  from a b c show ?thesis by simp
qed

section \<open>OK and the absence of an error\<close>

text \<open>
  C1, as the code has it. For every Status \<open>s\<close> the conversion to a native error
  (\<open>Err\<close>, and \<open>Error\<close> on the Status that \<open>New\<close> builds) yields the nil error if and
  only if the code is OK, so every other code yields a present error; and \<open>FromError\<close>
  applied to the nil error returns the nil \<open>*Status\<close> paired with \<open>True\<close>.
\<close>

theorem OK_iff_nil_error:
  "((Err render s = None) = (code s = OK))
   \<and> ((Error render c msg = None) = (c = OK))
   \<and> FromError None = Inr (None, True)"
  by (simp add: Err_def Error_def New_def status_New_def)

text \<open>
  C1, as the claim states it, fails: what \<open>FromError\<close> returns for the nil error is the
  nil pointer, not a Status of code OK.
\<close>

theorem FromError_nil_counterexample:
  "FromError None \<noteq> Inr (Some (New OK []), True) \<and> FromError None = Inr (None, True)"
  by simp

section \<open>The wire round trip\<close>

text \<open>
  C2. Wire round trip: reconstructing a Status from its wire projection yields the
  Status itself, and two Status values are equal exactly when their codes, their messages
  and their detail sequences (in order, each detail compared by its content) are equal.
\<close>

theorem wire_round_trip:
  "FromProto (ToWireMessage s) = s
   \<and> ((s = t) = (code s = code t \<and> message s = message t \<and> details s = details t))"
proof
  show "FromProto (ToWireMessage s) = s"
    by (simp add: FromProto_def status_FromProto_def ToWireMessage_def)
next
  show "(s = t) = (code s = code t \<and> message s = message t \<and> details s = details t)"
    by auto
qed

section \<open>Formatting\<close>

text \<open>
  C7. Formatting stability: \<open>Newf\<close> is \<open>New\<close> on the formatted message and nothing
  else, whatever the formatter; with the verbs of \<open>fmt.Sprintf\<close>, the code
  InvalidArgument, the format "bad field %s" and the operand "x" give the message
  "bad field x".
\<close>

theorem Newf_formats_then_New:
  "Newf sprintf c format a = New c (sprintf format a)
   \<and> Newf Sprintf InvalidArgument ''bad field %s'' [StringArg ''x'']
       = New InvalidArgument ''bad field x''
   \<and> message (Newf Sprintf InvalidArgument ''bad field %s'' [StringArg ''x'']) = ''bad field x''"
  by (simp add: Newf_def New_def status_New_def)


section \<open>The attribute store: the writes of the two loops\<close>

lemma length_store [simp]: "length (store h n k v) = length h"
  by (simp add: store_def)

lemma nth_store_other [simp]: "p \<noteq> n \<Longrightarrow> store h n k v ! p = h ! p"
  by (simp add: store_def)

lemma lookup_store_same:
  "n < length h \<Longrightarrow>
   DAList.lookup (m (store h n k v ! n)) k' = (if k = k' then Some v else DAList.lookup (m (h ! n)) k')"
  by (simp add: store_def lookup_update)

lemma length_for_range [simp]: "length (for_range es n h) = length h"
  by (induction es n h rule: for_range.induct) simp_all

lemma nth_for_range_other [simp]: "p \<noteq> n \<Longrightarrow> for_range es n h ! p = h ! p"
  by (induction es n h rule: for_range.induct) simp_all

lemma lookup_for_range:
  "n < length h \<Longrightarrow> distinct (map fst es) \<Longrightarrow>
   DAList.lookup (m (for_range es n h ! n)) k
     = (case map_of es k of None \<Rightarrow> DAList.lookup (m (h ! n)) k | Some v \<Rightarrow> Some v)"
proof (induction es n h rule: for_range.induct)
  case (1 n h)
  then show ?case by simp
next
  case (2 k' v' es n h)
  then have notin: "k' \<notin> fst ` set es" and dist: "distinct (map fst es)"
    by simp_all
  from notin have none: "map_of es k' = None"
    by (simp add: map_of_eq_None_iff)
  from 2 dist have "DAList.lookup (m (for_range es n (store h n k' v') ! n)) k
     = (case map_of es k of None \<Rightarrow> DAList.lookup (m (store h n k' v' ! n)) k | Some v \<Rightarrow> Some v)"
    by simp
  with none 2(2) show ?case
    by (simp add: lookup_store_same split: option.split)
qed

lemma for_kvs_done:
  "\<not> i < length kvs div 2 \<Longrightarrow> for_kvs kvs i n h = (Inr (), h)"
  by (subst for_kvs.simps) simp

lemma for_kvs_panic:
  "i < length kvs div 2 \<Longrightarrow> as_key (kvs ! (i * 2)) = None \<Longrightarrow>
   for_kvs kvs i n h = (Inl (UnhashableKey (kvs ! (i * 2))), h)"
  by (subst for_kvs.simps) (simp add: map_assign_def)

lemma for_kvs_step:
  "i < length kvs div 2 \<Longrightarrow> as_key (kvs ! (i * 2)) = Some k \<Longrightarrow>
   for_kvs kvs i n h = for_kvs kvs (i + 1) n (store h n k (kvs ! (i * 2 + 1)))"
  by (subst for_kvs.simps) (simp add: map_assign_def)

lemma for_kvs_frame:
  "length (snd (for_kvs kvs i n h)) = length h
   \<and> (\<forall>p. p \<noteq> n \<longrightarrow> snd (for_kvs kvs i n h) ! p = h ! p)"
proof (induction "length kvs div 2 - i" arbitrary: i h)
  case 0
  then show ?case by (simp add: for_kvs_done)
next
  case (Suc d)
  then have lt: "i < length kvs div 2" and d: "d = length kvs div 2 - (i + 1)"
    by simp_all
  show ?case
  proof (cases "as_key (kvs ! (i * 2))")
    case None
    with lt show ?thesis by (simp add: for_kvs_panic)
  next
    case (Some k)
    from Suc.hyps(1) [OF d, of "store h n k (kvs ! (i * 2 + 1))"] lt Some
    show ?thesis by (simp add: for_kvs_step)
  qed
qed

lemma for_kvs_returns:
  "(fst (for_kvs kvs i n h) = Inr ())
     = (\<forall>j. i \<le> j \<and> j < length kvs div 2 \<longrightarrow> as_key (kvs ! (j * 2)) \<noteq> None)"
proof (induction "length kvs div 2 - i" arbitrary: i h)
  case 0
  then show ?case by (auto simp add: for_kvs_done)
next
  case (Suc d)
  then have lt: "i < length kvs div 2" and d: "d = length kvs div 2 - (i + 1)"
    by simp_all
  show ?case
  proof (cases "as_key (kvs ! (i * 2))")
    case None
    with lt have "fst (for_kvs kvs i n h) \<noteq> Inr ()"
      by (simp add: for_kvs_panic)
    moreover from lt None
    have "\<not> (\<forall>j. i \<le> j \<and> j < length kvs div 2 \<longrightarrow> as_key (kvs ! (j * 2)) \<noteq> None)"
      by auto
    ultimately show ?thesis by simp
  next
    case (Some k)
    have "(\<forall>j. i \<le> j \<and> j < length kvs div 2 \<longrightarrow> as_key (kvs ! (j * 2)) \<noteq> None)
        = (\<forall>j. i + 1 \<le> j \<and> j < length kvs div 2 \<longrightarrow> as_key (kvs ! (j * 2)) \<noteq> None)"
    proof
      assume a: "\<forall>j. i \<le> j \<and> j < length kvs div 2 \<longrightarrow> as_key (kvs ! (j * 2)) \<noteq> None"
      show "\<forall>j. i + 1 \<le> j \<and> j < length kvs div 2 \<longrightarrow> as_key (kvs ! (j * 2)) \<noteq> None"
        using a by auto
    next
      assume a: "\<forall>j. i + 1 \<le> j \<and> j < length kvs div 2 \<longrightarrow> as_key (kvs ! (j * 2)) \<noteq> None"
      show "\<forall>j. i \<le> j \<and> j < length kvs div 2 \<longrightarrow> as_key (kvs ! (j * 2)) \<noteq> None"
      proof (intro allI impI)
        fix j assume j: "i \<le> j \<and> j < length kvs div 2"
        show "as_key (kvs ! (j * 2)) \<noteq> None"
        proof (cases "j = i")
          case True
          with Some show ?thesis by simp
        next
          case False
          with j a show ?thesis by auto
        qed
      qed
    qed
    with Suc.hyps(1) [OF d, of "store h n k (kvs ! (i * 2 + 1))"] lt Some
    show ?thesis by (simp add: for_kvs_step)
  qed
qed

lemma for_kvs_lookup_absent:
  "n < length h \<Longrightarrow>
   \<forall>j. i \<le> j \<and> j < length kvs div 2 \<longrightarrow> as_key (kvs ! (j * 2)) \<noteq> Some k \<Longrightarrow>
   DAList.lookup (m (snd (for_kvs kvs i n h) ! n)) k = DAList.lookup (m (h ! n)) k"
proof (induction "length kvs div 2 - i" arbitrary: i h)
  case 0
  then show ?case by (simp add: for_kvs_done)
next
  case (Suc d)
  then have lt: "i < length kvs div 2" and d: "d = length kvs div 2 - (i + 1)"
    by simp_all
  show ?case
  proof (cases "as_key (kvs ! (i * 2))")
    case None
    with lt show ?thesis by (simp add: for_kvs_panic)
  next
    case (Some k')
    from Suc.prems(2) lt Some have ne: "k' \<noteq> k" by auto
    from Suc.prems(2)
    have rest: "\<forall>j. i + 1 \<le> j \<and> j < length kvs div 2 \<longrightarrow> as_key (kvs ! (j * 2)) \<noteq> Some k"
      by auto
    from Suc.prems(1) have len: "n < length (store h n k' (kvs ! (i * 2 + 1)))"
      by simp
    from Suc.hyps(1) [OF d len rest] lt Some ne Suc.prems(1)
    show ?thesis by (simp add: for_kvs_step lookup_store_same)
  qed
qed

lemma for_kvs_lookup_last:
  "fst (for_kvs kvs i n h) = Inr () \<Longrightarrow> n < length h \<Longrightarrow>
   i \<le> j \<Longrightarrow> j < length kvs div 2 \<Longrightarrow> as_key (kvs ! (j * 2)) = Some k \<Longrightarrow>
   \<forall>j'. j < j' \<and> j' < length kvs div 2 \<longrightarrow> as_key (kvs ! (j' * 2)) \<noteq> Some k \<Longrightarrow>
   DAList.lookup (m (snd (for_kvs kvs i n h) ! n)) k = Some (kvs ! (j * 2 + 1))"
proof (induction "length kvs div 2 - i" arbitrary: i h)
  case 0
  then show ?case by simp
next
  case (Suc d)
  then have lt: "i < length kvs div 2" and d: "d = length kvs div 2 - (i + 1)"
    by simp_all
  show ?case
  proof (cases "as_key (kvs ! (i * 2))")
    case None
    with lt Suc.prems(1) show ?thesis by (simp add: for_kvs_panic)
  next
    case (Some k')
    let ?h = "store h n k' (kvs ! (i * 2 + 1))"
    from lt Some have step: "for_kvs kvs i n h = for_kvs kvs (i + 1) n ?h"
      by (rule for_kvs_step)
    from Suc.prems(2) have len: "n < length ?h" by simp
    show ?thesis
    proof (cases "j = i")
      case True
      with Some Suc.prems(5) have kk: "k' = k" by simp
      from True Suc.prems(6)
      have rest: "\<forall>j'. i + 1 \<le> j' \<and> j' < length kvs div 2 \<longrightarrow> as_key (kvs ! (j' * 2)) \<noteq> Some k"
        by auto
      from for_kvs_lookup_absent [OF len rest]
      have "DAList.lookup (m (snd (for_kvs kvs (i + 1) n ?h) ! n)) k = DAList.lookup (m (?h ! n)) k" .
      with step kk True Suc.prems(2) show ?thesis
        by (simp add: lookup_store_same)
    next
      case False
      with Suc.prems(3) have le: "i + 1 \<le> j" by simp
      from Suc.prems(1) step have ret: "fst (for_kvs kvs (i + 1) n ?h) = Inr ()" by simp
      from Suc.hyps(1) [OF d ret len le Suc.prems(4) Suc.prems(5) Suc.prems(6)] step
      show ?thesis by simp
    qed
  qed
qed

lemma as_key_inject: "as_key x = Some k \<Longrightarrow> as_key y = Some k \<Longrightarrow> x = y"
  by (cases x; cases y) auto

lemma attributes_New_odd:
  "length kvs mod 2 \<noteq> 0 \<Longrightarrow> attributes_New h kvs = (Inl (UnexpectedInput (length kvs)), h)"
  by (simp add: attributes_New_def)

lemma WithValues_odd:
  "length kvs mod 2 \<noteq> 0 \<Longrightarrow> WithValues h a kvs = (Inl (UnexpectedInput (length kvs)), h)"
  by (simp add: WithValues_def)

lemma attributes_New_even:
  "length kvs mod 2 = 0 \<Longrightarrow>
   attributes_New h kvs =
     (case fst (for_kvs kvs 0 (length h) (h @ [\<lparr>m = DAList.empty\<rparr>])) of
        Inl p \<Rightarrow> Inl p
      | Inr u \<Rightarrow> Inr (Some (length h)),
      snd (for_kvs kvs 0 (length h) (h @ [\<lparr>m = DAList.empty\<rparr>])))"
  by (simp add: attributes_New_def Let_def split: prod.split sum.split)

lemma WithValues_nil:
  "length kvs mod 2 = 0 \<Longrightarrow> deref h a = Inl e \<Longrightarrow> WithValues h a kvs = (Inl e, h)"
  by (simp add: WithValues_def)

lemma WithValues_even:
  "length kvs mod 2 = 0 \<Longrightarrow> deref h a = Inr s \<Longrightarrow>
   WithValues h a kvs =
     (case fst (for_kvs kvs 0 (length h)
                  (for_range (DAList.impl_of (m s)) (length h) (h @ [\<lparr>m = DAList.empty\<rparr>]))) of
        Inl p \<Rightarrow> Inl p
      | Inr u \<Rightarrow> Inr (Some (length h)),
      snd (for_kvs kvs 0 (length h)
             (for_range (DAList.impl_of (m s)) (length h) (h @ [\<lparr>m = DAList.empty\<rparr>]))))"
  by (simp add: WithValues_def Let_def split: prod.split sum.split)

lemma deref_Inr: "(deref h a = Inr s) = (\<exists>i. a = Some i \<and> i < length h \<and> s = h ! i)"
  by (cases a) auto

lemma attributes_New_returns:
  "length kvs mod 2 = 0 \<Longrightarrow>
   (\<exists>p. fst (attributes_New h kvs) = Inr p)
     = (\<forall>j<length kvs div 2. as_key (kvs ! (j * 2)) \<noteq> None)"
proof -
  assume even: "length kvs mod 2 = 0"
  let ?r = "fst (for_kvs kvs 0 (length h) (h @ [\<lparr>m = DAList.empty\<rparr>]))"
  have "(\<exists>p. fst (attributes_New h kvs) = Inr p) = (?r = Inr ())"
    using even by (cases ?r) (simp_all add: attributes_New_even)
  then show ?thesis
    by (simp add: for_kvs_returns)
qed

lemma WithValues_returns:
  "length kvs mod 2 = 0 \<Longrightarrow>
   (\<exists>p. fst (WithValues h a kvs) = Inr p)
     = ((\<exists>i. a = Some i \<and> i < length h)
        \<and> (\<forall>j<length kvs div 2. as_key (kvs ! (j * 2)) \<noteq> None))"
proof (cases "deref h a")
  case (Inl e)
  assume even: "length kvs mod 2 = 0"
  from Inl have "\<not> (\<exists>i. a = Some i \<and> i < length h)"
    by (cases a) (auto split: if_splits)
  with even Inl show ?thesis
    by (simp add: WithValues_nil)
next
  case (Inr s)
  assume even: "length kvs mod 2 = 0"
  from Inr have "\<exists>i. a = Some i \<and> i < length h"
    by (auto simp add: deref_Inr)
  moreover
  let ?r = "fst (for_kvs kvs 0 (length h)
      (for_range (DAList.impl_of (m s)) (length h) (h @ [\<lparr>m = DAList.empty\<rparr>])))"
  have "(\<exists>p. fst (WithValues h a kvs) = Inr p) = (?r = Inr ())"
    using even Inr by (cases ?r) (simp_all add: WithValues_even)
  ultimately show ?thesis
    by (simp add: for_kvs_returns)
qed

lemma WithValues_frame:
  "length h \<le> length (snd (WithValues h a kvs))
   \<and> (\<forall>p<length h. snd (WithValues h a kvs) ! p = h ! p)"
proof (cases "length kvs mod 2 = 0")
  case False
  then show ?thesis by (simp add: WithValues_odd)
next
  case True
  show ?thesis
  proof (cases "deref h a")
    case (Inl e)
    with True show ?thesis by (simp add: WithValues_nil)
  next
    case (Inr s)
    let ?h2 = "for_range (DAList.impl_of (m s)) (length h) (h @ [\<lparr>m = DAList.empty\<rparr>])"
    from for_kvs_frame [of kvs 0 "length h" ?h2]
    have len: "length (snd (for_kvs kvs 0 (length h) ?h2)) = length h + 1"
      and other: "\<forall>p. p \<noteq> length h \<longrightarrow> snd (for_kvs kvs 0 (length h) ?h2) ! p = ?h2 ! p"
      by simp_all
    from other have "\<forall>p<length h. snd (for_kvs kvs 0 (length h) ?h2) ! p = h ! p"
      by (simp add: nth_append)
    with len True Inr show ?thesis
      by (simp add: WithValues_even)
  qed
qed

lemma attributes_New_frame:
  "length h \<le> length (snd (attributes_New h kvs))
   \<and> (\<forall>p<length h. snd (attributes_New h kvs) ! p = h ! p)"
proof (cases "length kvs mod 2 = 0")
  case False
  then show ?thesis by (simp add: attributes_New_odd)
next
  case True
  let ?h1 = "h @ [\<lparr>m = DAList.empty\<rparr>]"
  from for_kvs_frame [of kvs 0 "length h" ?h1]
  have len: "length (snd (for_kvs kvs 0 (length h) ?h1)) = length h + 1"
    and other: "\<forall>p. p \<noteq> length h \<longrightarrow> snd (for_kvs kvs 0 (length h) ?h1) ! p = ?h1 ! p"
    by simp_all
  from other have "\<forall>p<length h. snd (for_kvs kvs 0 (length h) ?h1) ! p = h ! p"
    by (simp add: nth_append)
  with len True show ?thesis
    by (simp add: attributes_New_even)
qed

lemma Value_frame:
  "i < length h \<Longrightarrow> length h \<le> length h' \<Longrightarrow> h' ! i = h ! i \<Longrightarrow>
   Value h' (Some i) k = Value h (Some i) k"
  by (simp add: Value_def)

lemma attributes_New_Inr:
  "attributes_New h kvs = (Inr p, h') \<Longrightarrow>
   length kvs mod 2 = 0 \<and> p = Some (length h)
   \<and> fst (for_kvs kvs 0 (length h) (h @ [\<lparr>m = DAList.empty\<rparr>])) = Inr ()
   \<and> h' = snd (for_kvs kvs 0 (length h) (h @ [\<lparr>m = DAList.empty\<rparr>]))"
proof -
  assume a: "attributes_New h kvs = (Inr p, h')"
  have even: "length kvs mod 2 = 0"
  proof (rule ccontr)
    assume "length kvs mod 2 \<noteq> 0"
    with a show False by (simp add: attributes_New_odd)
  qed
  with a show ?thesis
    by (auto simp add: attributes_New_even split: sum.splits)
qed

lemma WithValues_Inr:
  "WithValues h a kvs = (Inr p, h') \<Longrightarrow>
   \<exists>i. a = Some i \<and> i < length h \<and> length kvs mod 2 = 0 \<and> p = Some (length h)
     \<and> fst (for_kvs kvs 0 (length h)
          (for_range (DAList.impl_of (m (h ! i))) (length h) (h @ [\<lparr>m = DAList.empty\<rparr>]))) = Inr ()
     \<and> h' = snd (for_kvs kvs 0 (length h)
          (for_range (DAList.impl_of (m (h ! i))) (length h) (h @ [\<lparr>m = DAList.empty\<rparr>])))"
proof -
  assume a: "WithValues h a kvs = (Inr p, h')"
  have even: "length kvs mod 2 = 0"
  proof (rule ccontr)
    assume "length kvs mod 2 \<noteq> 0"
    with a show False by (simp add: WithValues_odd)
  qed
  show ?thesis
  proof (cases "deref h a")
    case (Inl e)
    with even a show ?thesis by (simp add: WithValues_nil)
  next
    case (Inr s)
    then obtain i where i: "a = Some i" "i < length h" "s = h ! i"
      by (auto simp add: deref_Inr)
    from even Inr a i show ?thesis
      by (auto simp add: WithValues_even split: sum.splits)
  qed
qed

lemma Value_fresh:
  "n < length h \<Longrightarrow> as_key k = Some k' \<Longrightarrow>
   Value h (Some n) k = Inr (case DAList.lookup (m (h ! n)) k' of None \<Rightarrow> VNil | Some v \<Rightarrow> v)"
  by (simp add: Value_def)

lemma last_write_wins:
  assumes ret: "fst (for_kvs kvs 0 n h) = Inr ()"
    and n: "n < length h"
    and j: "j < length kvs div 2"
    and last: "\<forall>j'. j < j' \<and> j' < length kvs div 2 \<longrightarrow> kvs ! (j' * 2) \<noteq> kvs ! (j * 2)"
  shows "Value (snd (for_kvs kvs 0 n h)) (Some n) (kvs ! (j * 2)) = Inr (kvs ! (j * 2 + 1))"
proof -
  from ret j have "as_key (kvs ! (j * 2)) \<noteq> None"
    by (simp add: for_kvs_returns)
  then obtain k where k: "as_key (kvs ! (j * 2)) = Some k" by auto
  have last': "\<forall>j'. j < j' \<and> j' < length kvs div 2 \<longrightarrow> as_key (kvs ! (j' * 2)) \<noteq> Some k"
  proof (intro allI impI notI)
    fix j' assume "j < j' \<and> j' < length kvs div 2" and "as_key (kvs ! (j' * 2)) = Some k"
    with k last as_key_inject show False by blast
  qed
  from for_kvs_lookup_last [OF ret n _ j k last']
  have "DAList.lookup (m (snd (for_kvs kvs 0 n h) ! n)) k = Some (kvs ! (j * 2 + 1))"
    by simp
  moreover from n have "n < length (snd (for_kvs kvs 0 n h))"
    by (simp add: for_kvs_frame)
  ultimately show ?thesis using k
    by (simp add: Value_fresh)
qed

lemma receiver_entry_kept:
  assumes i: "i < length h"
    and k: "as_key k = Some k'"
    and absent: "\<forall>j<length kvs div 2. kvs ! (j * 2) \<noteq> k"
  shows "Value (snd (for_kvs kvs 0 (length h)
            (for_range (DAList.impl_of (m (h ! i))) (length h) (h @ [\<lparr>m = DAList.empty\<rparr>]))))
          (Some (length h)) k
         = Value h (Some i) k"
proof -
  let ?h1 = "h @ [\<lparr>m = DAList.empty\<rparr>]"
  let ?h2 = "for_range (DAList.impl_of (m (h ! i))) (length h) ?h1"
  let ?h3 = "snd (for_kvs kvs 0 (length h) ?h2)"
  have n2: "length h < length ?h2" by simp
  have absent': "\<forall>j. 0 \<le> j \<and> j < length kvs div 2 \<longrightarrow> as_key (kvs ! (j * 2)) \<noteq> Some k'"
  proof (intro allI impI notI)
    fix j assume "0 \<le> j \<and> j < length kvs div 2" and "as_key (kvs ! (j * 2)) = Some k'"
    with k absent as_key_inject show False by blast
  qed
  have "DAList.lookup (m (?h3 ! length h)) k' = DAList.lookup (m (?h2 ! length h)) k'"
    by (rule for_kvs_lookup_absent [OF n2 absent'])
  also have "\<dots> = (case map_of (DAList.impl_of (m (h ! i))) k' of
                      None \<Rightarrow> DAList.lookup (m (?h1 ! length h)) k' | Some v \<Rightarrow> Some v)"
    by (rule lookup_for_range) simp_all
  also have "\<dots> = DAList.lookup (m (h ! i)) k'"
    by (simp add: lookup.rep_eq empty.rep_eq split: option.split)
  finally have eq: "DAList.lookup (m (?h3 ! length h)) k' = DAList.lookup (m (h ! i)) k'" .
  have "length h < length ?h3" by (simp add: for_kvs_frame)
  with eq k i show ?thesis
    by (simp add: Value_def)
qed

lemmas attr_eval =
  attributes_New_def WithValues_def Value_def for_kvs.simps map_assign_def store_def
  update.rep_eq empty.rep_eq lookup_update

section \<open>The attribute store: misuse\<close>

text \<open>
  C8, as the code has it. For every argument list of odd length, \<open>New\<close> and
  \<open>WithValues\<close> (whatever its receiver) panic at the length check, with the store as it
  was. For every argument list of even length, \<open>New\<close> returns normally exactly when
  every key \<open>kvs[2j]\<close> is hashable, and \<open>WithValues\<close> exactly when moreover its receiver
  is an allocated (non-nil) Attributes.
\<close>

theorem kvs_misuse_panics:
  "(length kvs mod 2 \<noteq> 0 \<longrightarrow>
      attributes_New h kvs = (Inl (UnexpectedInput (length kvs)), h)
      \<and> WithValues h a kvs = (Inl (UnexpectedInput (length kvs)), h))
   \<and> (length kvs mod 2 = 0 \<longrightarrow>
      ((\<exists>p. fst (attributes_New h kvs) = Inr p)
         = (\<forall>j<length kvs div 2. as_key (kvs ! (j * 2)) \<noteq> None))
      \<and> ((\<exists>p. fst (WithValues h a kvs) = Inr p)
         = ((\<exists>i. a = Some i \<and> i < length h)
            \<and> (\<forall>j<length kvs div 2. as_key (kvs ! (j * 2)) \<noteq> None))))"
proof (intro conjI impI)
  assume "length kvs mod 2 \<noteq> 0"
  then show "attributes_New h kvs = (Inl (UnexpectedInput (length kvs)), h)"
    by (rule attributes_New_odd)
next
  assume "length kvs mod 2 \<noteq> 0"
  then show "WithValues h a kvs = (Inl (UnexpectedInput (length kvs)), h)"
    by (rule WithValues_odd)
next
  assume "length kvs mod 2 = 0"
  then show "(\<exists>p. fst (attributes_New h kvs) = Inr p)
         = (\<forall>j<length kvs div 2. as_key (kvs ! (j * 2)) \<noteq> None)"
    by (rule attributes_New_returns)
next
  assume "length kvs mod 2 = 0"
  then show "(\<exists>p. fst (WithValues h a kvs) = Inr p)
         = ((\<exists>i. a = Some i \<and> i < length h)
            \<and> (\<forall>j<length kvs div 2. as_key (kvs ! (j * 2)) \<noteq> None))"
    by (rule WithValues_returns)
qed

theorem kvs_misuse_panics_witness:
  "length [VStr ''a''] mod 2 \<noteq> 0
   \<and> attributes_New [] [VStr ''a''] = (Inl (UnexpectedInput 1), [])
   \<and> WithValues [] None [VStr ''a''] = (Inl (UnexpectedInput 1), [])
   \<and> length [VStr ''a'', VInt 1] mod 2 = 0
   \<and> (\<exists>p. fst (attributes_New [\<lparr>m = DAList.empty\<rparr>] [VStr ''a'', VInt 1]) = Inr p)
   \<and> (\<exists>p. fst (WithValues [\<lparr>m = DAList.empty\<rparr>] (Some 0) [VStr ''a'', VInt 1]) = Inr p)"
proof -
  have odd: "length [VStr ''a''] mod 2 \<noteq> 0" by simp
  have even: "length [VStr ''a'', VInt 1] mod 2 = 0" by simp
  have keys: "\<forall>j<length [VStr ''a'', VInt 1] div 2. as_key ([VStr ''a'', VInt 1] ! (j * 2)) \<noteq> None"
    by simp
  have rcv: "\<exists>i. Some (0::nat) = Some i \<and> i < length [\<lparr>m = DAList.empty\<rparr>]" by simp
  from odd kvs_misuse_panics [of "[VStr ''a'']" "[]" None]
  have 1: "attributes_New [] [VStr ''a''] = (Inl (UnexpectedInput 1), [])"
    and 2: "WithValues [] None [VStr ''a''] = (Inl (UnexpectedInput 1), [])"
    by simp_all
  from even keys rcv
    kvs_misuse_panics [of "[VStr ''a'', VInt 1]" "[\<lparr>m = DAList.empty\<rparr>]" "Some 0"]
  have 3: "\<exists>p. fst (attributes_New [\<lparr>m = DAList.empty\<rparr>] [VStr ''a'', VInt 1]) = Inr p"
    and 4: "\<exists>p. fst (WithValues [\<lparr>m = DAList.empty\<rparr>] (Some 0) [VStr ''a'', VInt 1]) = Inr p"
    by simp_all
  from odd even 1 2 3 4 show ?thesis by blast
qed

text \<open>
  C8, as the claim states it, fails: an argument list of even length whose key is a
  slice makes \<open>New\<close> panic.
\<close>

theorem New_unhashable_key_counterexample:
  "length [VSlice [], VNil] mod 2 = 0
   \<and> attributes_New [] [VSlice [], VNil]
       = (Inl (UnhashableKey (VSlice [])), [\<lparr>m = DAList.empty\<rparr>])"
  by (simp add: attributes_New_def for_kvs.simps map_assign_def)

section \<open>The attribute store: the receiver is not written\<close>

text \<open>
  C9, as the code has it. For every Attributes \<open>a\<close> (an allocated address \<open>i\<close>) and
  every argument list, \<open>WithValues\<close> leaves every struct of the store as it was, so every
  observation on \<open>a\<close> through \<open>Value\<close> is unchanged, also when the call panics; and for
  every argument list of even length whose keys are all hashable it returns a new
  Attributes: the fresh address \<open>length h\<close>, which is none of the store.
\<close>

theorem WithValues_receiver_unchanged:
  "i < length h \<Longrightarrow>
   (\<forall>p<length h. snd (WithValues h (Some i) kvs) ! p = h ! p)
   \<and> (\<forall>k. Value (snd (WithValues h (Some i) kvs)) (Some i) k = Value h (Some i) k)
   \<and> (length kvs mod 2 = 0 \<and> (\<forall>j<length kvs div 2. as_key (kvs ! (j * 2)) \<noteq> None) \<longrightarrow>
        fst (WithValues h (Some i) kvs) = Inr (Some (length h)))"
proof (intro conjI allI impI)
  fix p assume "p < length h"
  then show "snd (WithValues h (Some i) kvs) ! p = h ! p"
    using WithValues_frame [of h "Some i" kvs] by simp
next
  fix k assume i: "i < length h"
  from i WithValues_frame [of h "Some i" kvs]
  have "length h \<le> length (snd (WithValues h (Some i) kvs))"
    and "snd (WithValues h (Some i) kvs) ! i = h ! i"
    by simp_all
  with i show "Value (snd (WithValues h (Some i) kvs)) (Some i) k = Value h (Some i) k"
    by (rule Value_frame)
next
  assume i: "i < length h"
    and ok: "length kvs mod 2 = 0 \<and> (\<forall>j<length kvs div 2. as_key (kvs ! (j * 2)) \<noteq> None)"
  with WithValues_returns [of kvs h "Some i"]
  obtain p where p: "fst (WithValues h (Some i) kvs) = Inr p" by auto
  then have "WithValues h (Some i) kvs = (Inr p, snd (WithValues h (Some i) kvs))"
    by (simp add: prod_eq_iff)
  from WithValues_Inr [OF this] p
  show "fst (WithValues h (Some i) kvs) = Inr (Some (length h))" by auto
qed

theorem WithValues_receiver_unchanged_witness:
  "0 < length [\<lparr>m = DAList.update (KStr ''a'') (VInt 1) DAList.empty\<rparr>]
   \<and> Value (snd (WithValues [\<lparr>m = DAList.update (KStr ''a'') (VInt 1) DAList.empty\<rparr>] (Some 0)
                  [VStr ''a'', VInt 2]))
        (Some 0) (VStr ''a'') = Inr (VInt 1)
   \<and> fst (WithValues [\<lparr>m = DAList.update (KStr ''a'') (VInt 1) DAList.empty\<rparr>] (Some 0)
            [VStr ''a'', VInt 2]) = Inr (Some 1)
   \<and> Value (snd (WithValues [\<lparr>m = DAList.update (KStr ''a'') (VInt 1) DAList.empty\<rparr>] (Some 0)
                  [VStr ''a'', VInt 2]))
        (Some 1) (VStr ''a'') = Inr (VInt 2)"
proof -
  let ?h = "[\<lparr>m = DAList.update (KStr ''a'') (VInt 1) DAList.empty\<rparr>]"
  let ?kvs = "[VStr ''a'', VInt 2]"
  have valid: "0 < length ?h" by simp
  have ok: "length ?kvs mod 2 = 0 \<and> (\<forall>j<length ?kvs div 2. as_key (?kvs ! (j * 2)) \<noteq> None)"
    by simp
  from WithValues_receiver_unchanged [OF valid, of ?kvs] ok
  have same: "Value (snd (WithValues ?h (Some 0) ?kvs)) (Some 0) (VStr ''a'')
                = Value ?h (Some 0) (VStr ''a'')"
    and new: "fst (WithValues ?h (Some 0) ?kvs) = Inr (Some (length ?h))"
    by blast+
  have old: "Value ?h (Some 0) (VStr ''a'') = Inr (VInt 1)"
    by (simp add: Value_def)
  have derived: "Value (snd (WithValues ?h (Some 0) ?kvs)) (Some 1) (VStr ''a'') = Inr (VInt 2)"
    by (simp add: attr_eval)
  from valid same new old derived show ?thesis by simp
qed

text \<open>
  C9, as the claim states it, fails: with an argument list of even length whose key is
  a slice, \<open>WithValues\<close> returns no Attributes; it panics.
\<close>

theorem WithValues_unhashable_key_counterexample:
  "length [VSlice [], VNil] mod 2 = 0
   \<and> WithValues [\<lparr>m = DAList.empty\<rparr>] (Some 0) [VSlice [], VNil]
       = (Inl (UnhashableKey (VSlice [])), [\<lparr>m = DAList.empty\<rparr>, \<lparr>m = DAList.empty\<rparr>])"
  by (simp add: WithValues_def for_kvs.simps map_assign_def empty.rep_eq)

section \<open>The attribute store: the later value wins\<close>

text \<open>
  C10. Ordered overwrite: when \<open>New\<close> or \<open>WithValues\<close> has returned the Attributes
  \<open>p\<close>, then for the last pair \<open>j\<close> of \<open>kvs\<close> with a given key (no later pair has the
  same key), \<open>Value\<close> on \<open>p\<close> returns that pair's value, whatever earlier pairs and, for
  \<open>WithValues\<close>, the receiver hold for the key; and a hashable key that no pair of
  \<open>kvs\<close> has reads on \<open>p\<close> as it reads on the receiver.
\<close>

theorem ordered_overwrite:
  "(attributes_New h kvs = (Inr p, h') \<and> j < length kvs div 2
      \<and> (\<forall>j'. j < j' \<and> j' < length kvs div 2 \<longrightarrow> kvs ! (j' * 2) \<noteq> kvs ! (j * 2))
     \<longrightarrow> Value h' p (kvs ! (j * 2)) = Inr (kvs ! (j * 2 + 1)))
   \<and> (WithValues h a kvs = (Inr p, h') \<and> j < length kvs div 2
      \<and> (\<forall>j'. j < j' \<and> j' < length kvs div 2 \<longrightarrow> kvs ! (j' * 2) \<noteq> kvs ! (j * 2))
     \<longrightarrow> Value h' p (kvs ! (j * 2)) = Inr (kvs ! (j * 2 + 1)))
   \<and> (WithValues h a kvs = (Inr p, h') \<and> as_key k \<noteq> None
      \<and> (\<forall>j<length kvs div 2. kvs ! (j * 2) \<noteq> k)
     \<longrightarrow> Value h' p k = Value h a k)"
proof (intro conjI impI)
  assume a: "attributes_New h kvs = (Inr p, h') \<and> j < length kvs div 2
      \<and> (\<forall>j'. j < j' \<and> j' < length kvs div 2 \<longrightarrow> kvs ! (j' * 2) \<noteq> kvs ! (j * 2))"
  let ?h1 = "h @ [\<lparr>m = DAList.empty\<rparr>]"
  from a attributes_New_Inr [of h kvs p h']
  have p: "p = Some (length h)" and ret: "fst (for_kvs kvs 0 (length h) ?h1) = Inr ()"
    and h': "h' = snd (for_kvs kvs 0 (length h) ?h1)"
    by simp_all
  have n: "length h < length ?h1" by simp
  from a last_write_wins [OF ret n, of j] p h'
  show "Value h' p (kvs ! (j * 2)) = Inr (kvs ! (j * 2 + 1))" by simp
next
  assume a: "WithValues h a kvs = (Inr p, h') \<and> j < length kvs div 2
      \<and> (\<forall>j'. j < j' \<and> j' < length kvs div 2 \<longrightarrow> kvs ! (j' * 2) \<noteq> kvs ! (j * 2))"
  with WithValues_Inr [of h a kvs p h'] obtain i where i: "a = Some i" "i < length h"
    and p: "p = Some (length h)"
    and ret: "fst (for_kvs kvs 0 (length h)
          (for_range (DAList.impl_of (m (h ! i))) (length h) (h @ [\<lparr>m = DAList.empty\<rparr>]))) = Inr ()"
    and h': "h' = snd (for_kvs kvs 0 (length h)
          (for_range (DAList.impl_of (m (h ! i))) (length h) (h @ [\<lparr>m = DAList.empty\<rparr>])))"
    by auto
  have n: "length h < length (for_range (DAList.impl_of (m (h ! i))) (length h) (h @ [\<lparr>m = DAList.empty\<rparr>]))"
    by simp
  from a last_write_wins [OF ret n, of j] p h'
  show "Value h' p (kvs ! (j * 2)) = Inr (kvs ! (j * 2 + 1))" by simp
next
  assume a: "WithValues h a kvs = (Inr p, h') \<and> as_key k \<noteq> None
      \<and> (\<forall>j<length kvs div 2. kvs ! (j * 2) \<noteq> k)"
  with WithValues_Inr [of h a kvs p h'] obtain i where i: "a = Some i" "i < length h"
    and p: "p = Some (length h)"
    and h': "h' = snd (for_kvs kvs 0 (length h)
          (for_range (DAList.impl_of (m (h ! i))) (length h) (h @ [\<lparr>m = DAList.empty\<rparr>])))"
    by auto
  from a obtain k' where k': "as_key k = Some k'" by auto
  from a receiver_entry_kept [OF i(2) k', of kvs] i p h'
  show "Value h' p k = Value h a k" by simp
qed

theorem ordered_overwrite_witness:
  "attributes_New [] [VStr ''a'', VInt 1, VStr ''a'', VInt 2]
     = (Inr (Some 0), snd (attributes_New [] [VStr ''a'', VInt 1, VStr ''a'', VInt 2]))
   \<and> Value (snd (attributes_New [] [VStr ''a'', VInt 1, VStr ''a'', VInt 2])) (Some 0) (VStr ''a'')
       = Inr (VInt 2)
   \<and> WithValues [\<lparr>m = DAList.update (KStr ''a'') (VInt 1) (DAList.update (KStr ''b'') (VInt 7) DAList.empty)\<rparr>]
        (Some 0) [VStr ''a'', VInt 2, VStr ''a'', VInt 3]
     = (Inr (Some 1),
        snd (WithValues [\<lparr>m = DAList.update (KStr ''a'') (VInt 1) (DAList.update (KStr ''b'') (VInt 7) DAList.empty)\<rparr>]
               (Some 0) [VStr ''a'', VInt 2, VStr ''a'', VInt 3]))
   \<and> Value (snd (WithValues [\<lparr>m = DAList.update (KStr ''a'') (VInt 1) (DAList.update (KStr ''b'') (VInt 7) DAList.empty)\<rparr>]
                  (Some 0) [VStr ''a'', VInt 2, VStr ''a'', VInt 3]))
        (Some 1) (VStr ''a'') = Inr (VInt 3)
   \<and> Value (snd (WithValues [\<lparr>m = DAList.update (KStr ''a'') (VInt 1) (DAList.update (KStr ''b'') (VInt 7) DAList.empty)\<rparr>]
                  (Some 0) [VStr ''a'', VInt 2, VStr ''a'', VInt 3]))
        (Some 1) (VStr ''b'') = Inr (VInt 7)"
proof -
  let ?kvs = "[VStr ''a'', VInt 1, VStr ''a'', VInt 2]"
  let ?h = "[\<lparr>m = DAList.update (KStr ''a'') (VInt 1) (DAList.update (KStr ''b'') (VInt 7) DAList.empty)\<rparr>]"
  let ?kvs' = "[VStr ''a'', VInt 2, VStr ''a'', VInt 3]"
  have new: "attributes_New [] ?kvs = (Inr (Some 0), snd (attributes_New [] ?kvs))"
    by (simp add: attr_eval)
  have j: "(1::nat) < length ?kvs div 2" by simp
  have last: "\<forall>j'. 1 < j' \<and> j' < length ?kvs div 2 \<longrightarrow> ?kvs ! (j' * 2) \<noteq> ?kvs ! (1 * 2)"
    by simp
  from new j last ordered_overwrite [of "[]" ?kvs "Some 0" "snd (attributes_New [] ?kvs)" 1]
  have "Value (snd (attributes_New [] ?kvs)) (Some 0) (?kvs ! (1 * 2)) = Inr (?kvs ! (1 * 2 + 1))"
    by blast
  then have 1: "Value (snd (attributes_New [] ?kvs)) (Some 0) (VStr ''a'') = Inr (VInt 2)"
    by simp
  have wv: "WithValues ?h (Some 0) ?kvs' = (Inr (Some 1), snd (WithValues ?h (Some 0) ?kvs'))"
    by (simp add: attr_eval)
  have j': "(1::nat) < length ?kvs' div 2" by simp
  have last': "\<forall>j'. 1 < j' \<and> j' < length ?kvs' div 2 \<longrightarrow> ?kvs' ! (j' * 2) \<noteq> ?kvs' ! (1 * 2)"
    by simp
  from wv j' last'
    ordered_overwrite [of ?h ?kvs' "Some 1" "snd (WithValues ?h (Some 0) ?kvs')" 1 "Some 0"]
  have "Value (snd (WithValues ?h (Some 0) ?kvs')) (Some 1) (?kvs' ! (1 * 2)) = Inr (?kvs' ! (1 * 2 + 1))"
    by blast
  then have 2: "Value (snd (WithValues ?h (Some 0) ?kvs')) (Some 1) (VStr ''a'') = Inr (VInt 3)"
    by simp
  have hk: "as_key (VStr ''b'') \<noteq> None" by simp
  have absent: "\<forall>j<length ?kvs' div 2. ?kvs' ! (j * 2) \<noteq> VStr ''b''"
  proof (intro allI impI)
    fix j :: nat
    assume "j < length ?kvs' div 2"
    then have "j = 0 \<or> j = 1" by auto
    then show "?kvs' ! (j * 2) \<noteq> VStr ''b''" by auto
  qed
  from wv hk absent
    ordered_overwrite [of ?h ?kvs' "Some 1" "snd (WithValues ?h (Some 0) ?kvs')" _ "Some 0" "VStr ''b''"]
  have "Value (snd (WithValues ?h (Some 0) ?kvs')) (Some 1) (VStr ''b'') = Value ?h (Some 0) (VStr ''b'')"
    by blast
  then have 3: "Value (snd (WithValues ?h (Some 0) ?kvs')) (Some 1) (VStr ''b'') = Inr (VInt 7)"
    by (simp add: Value_def lookup_update)
  from new 1 wv 2 3 show ?thesis by blast
qed

end
